theory Spec2Isabelle
  imports Main "HOL-Library.Word"
begin

unbundle bit_operations_syntax

section \<open>The Win32-QV port header \<^verbatim>\<open>ports/win32-qv/qf_port.h\<close>\<close>

text \<open>
  A name of the header that ends in an underscore is written without it (\<open>QF_EPOOL_INIT\<close>
  for \<^verbatim>\<open>QF_EPOOL_INIT_\<close>, \<open>QV_readySet\<close> for \<^verbatim>\<open>QV_readySet_\<close>).
  The header consists of configuration constants and of macros that expand to calls of
  the framework's classes (\<^verbatim>\<open>QEQueue\<close>, \<^verbatim>\<open>QMPool\<close>, \<^verbatim>\<open>QPSet64\<close>), whose
  own sources are not part of the header. Each macro becomes a function on an explicit
  state; a fatal assertion, and the exception of a failed \<^verbatim>\<open>new[]\<close>, become
  values of the type \<open>fault\<close>.
\<close>

subsection \<open>Configuration constants\<close>

definition QF_MAX_ACTIVE :: nat where
  "QF_MAX_ACTIVE = 63"

definition QF_MAX_TICK_RATE :: nat where
  "QF_MAX_TICK_RATE = 2"

definition QF_MPOOL_CTR_SIZE :: nat where
  "QF_MPOOL_CTR_SIZE = 4"

text \<open>
  \<^verbatim>\<open>enum { QF_WIN32_FUDGE_FACTOR = 100 }\<close>: an enumerator, of type \<^verbatim>\<open>int\<close> in an
  arithmetic expression.
\<close>

definition QF_WIN32_FUDGE_FACTOR :: int where
  "QF_WIN32_FUDGE_FACTOR = 100"

text \<open>
  \<^verbatim>\<open>uint_fast32_t\<close> is \<^verbatim>\<open>unsigned int\<close>, 32 bits wide, with the Windows compilers
  this port is for (Visual C++ and MinGW); arithmetic on it wraps modulo \<open>2 ^ 32\<close>.
\<close>

type_synonym uint_fast32_t = "32 word"

subsection \<open>Faults\<close>

text \<open>
  \<^verbatim>\<open>Q_ASSERT_ID(id, test)\<close> and \<^verbatim>\<open>Q_ASSERT(test)\<close> call the assertion handler, which
  does not return, when \<open>test\<close> is false: \<open>Q_assert_id id\<close> and \<open>Q_assert\<close>.
  \<open>Std_bad_alloc\<close> is the exception of a \<^verbatim>\<open>new[]\<close> that finds no memory.
  \<open>Q_fatal\<close> is a fatal condition of a framework class that the header only calls.
\<close>

datatype fault = Q_assert_id nat | Q_assert | Std_bad_alloc | Q_fatal

subsection \<open>Pointers and the free store\<close>

text \<open>
  A pointer is null or points into an array: the array's base and a byte offset in it.
  The memory records the live arrays with their sizes in bytes, the bytes of every
  array, and how many bytes the free store can still hand out.
\<close>

type_synonym addr = "nat \<times> nat"

datatype ptr = Null | Ptr addr

record memory =
  allocs :: "(nat \<times> nat) list"
  bytes :: "nat \<Rightarrow> nat \<Rightarrow> 8 word"
  avail :: nat

definition bases :: "memory \<Rightarrow> nat set" where
  "bases m = fst ` set (allocs m)"

definition fresh_base :: "memory \<Rightarrow> nat" where
  "fresh_base m = Suc (fold max (map fst (allocs m)) 0)"

text \<open>
  \<^verbatim>\<open>new uint8_t[n]\<close>: the allocation function either throws \<^verbatim>\<open>std::bad_alloc\<close> or
  returns the address of a new array of \<open>n\<close> bytes, distinct from every live array; the
  bytes of the new array are not initialised (the model leaves them as they are).
\<close>

definition new_uint8_array :: "nat \<Rightarrow> memory \<Rightarrow> fault + (ptr \<times> memory)" where
  "new_uint8_array n m =
     (if avail m < n then Inl Std_bad_alloc
      else Inr (Ptr (fresh_base m, 0),
                m\<lparr>allocs := (fresh_base m, n) # allocs m, avail := avail m - n\<rparr>))"

subsection \<open>Event pool operations\<close>

text \<open>
  \<^verbatim>\<open>QF_EPOOL_INIT_(p_, poolSto_, poolSize_, evtSize_)\<close>. The method \<^verbatim>\<open>init\<close> of the
  pool \<open>p_\<close> is not defined in the header and is the parameter \<open>init\<close>: it receives the
  storage, its size and the event size, and updates the pool or fails. The macro
  \<^item> computes \<open>fudgedSize\<close>, a \<^verbatim>\<open>uint_fast32_t\<close>, as \<open>poolSize_ * QF_WIN32_FUDGE_FACTOR\<close>
    (the enumerator is converted to the unsigned type of \<open>poolSize_\<close>);
  \<^item> allocates \<open>fudgedSto\<close> with \<^verbatim>\<open>new uint8_t[poolSize_ * QF_WIN32_FUDGE_FACTOR]\<close>;
  \<^item> asserts, with the ID 210, that \<open>fudgedSto\<close> is not null;
  \<^item> evaluates \<open>poolSto_\<close> and casts it to \<^verbatim>\<open>void\<close>;
  \<^item> calls \<open>p_.init(fudgedSto, fudgedSize, evtSize_)\<close>.
\<close>

definition QF_EPOOL_INIT ::
  "(ptr \<Rightarrow> uint_fast32_t \<Rightarrow> 'e \<Rightarrow> 'p \<Rightarrow> fault + 'p) \<Rightarrow>
   'p \<Rightarrow> ptr \<Rightarrow> uint_fast32_t \<Rightarrow> 'e \<Rightarrow> memory \<Rightarrow> fault + ('p \<times> memory)" where
  "QF_EPOOL_INIT init p poolSto poolSize evtSize m =
     (let fudgedSize = poolSize * word_of_int QF_WIN32_FUDGE_FACTOR in
      case new_uint8_array (unat (poolSize * word_of_int QF_WIN32_FUDGE_FACTOR)) m of
        Inl x \<Rightarrow> Inl x
      | Inr (fudgedSto, m') \<Rightarrow>
          if fudgedSto = Null then Inl (Q_assert_id 210)
          else (let _ = poolSto in
                case init fudgedSto fudgedSize evtSize p of
                  Inl x \<Rightarrow> Inl x
                | Inr p' \<Rightarrow> Inr (p', m')))"

text \<open>
  An \<open>init\<close> that only records its arguments: the pool is the list of the calls made.
\<close>

definition record_init ::
  "ptr \<Rightarrow> uint_fast32_t \<Rightarrow> 'e \<Rightarrow> (ptr \<times> uint_fast32_t \<times> 'e) list \<Rightarrow>
   fault + (ptr \<times> uint_fast32_t \<times> 'e) list" where
  "record_init sto n e calls = Inr (calls @ [(sto, n, e)])"

text \<open>
  Modelled from the spec: the class \<^verbatim>\<open>QMPool\<close> (\<^verbatim>\<open>qmpool.h\<close>), of which the header
  uses \<^verbatim>\<open>init\<close>, \<^verbatim>\<open>get\<close>, \<^verbatim>\<open>put\<close> and \<^verbatim>\<open>getBlockSize\<close>. The spec: an event pool is
  "a fixed-block allocator tracking free/used blocks of one block size";
  "init(poolBuffer, inflatedCapacity, blockSize) carves the pool's storage"; a "pool
  capacity of zero" is "fatal at initialization"; a pool initialised with the capacity
  1000 has "exactly 1000 blocks available for allocation". The pool keeps its free
  list; the free-block count is the length of that list.
\<close>

record QMPool =
  m_start :: ptr
  m_blockSize :: nat
  m_nTot :: nat
  m_free :: "addr list"

definition nFree :: "QMPool \<Rightarrow> nat" where
  "nFree p = length (m_free p)"

definition carve :: "addr \<Rightarrow> nat \<Rightarrow> nat \<Rightarrow> addr list" where
  "carve a n blockSize = map (\<lambda>i. (fst a, snd a + i * blockSize)) [0..<n]"

definition QMPool_init :: "ptr \<Rightarrow> uint_fast32_t \<Rightarrow> nat \<Rightarrow> QMPool \<Rightarrow> fault + QMPool" where
  "QMPool_init poolSto poolSize blockSize p =
     (case poolSto of
        Null \<Rightarrow> Inl Q_fatal
      | Ptr a \<Rightarrow>
          if poolSize = 0 then Inl Q_fatal
          else Inr (p\<lparr>m_start := poolSto, m_blockSize := blockSize,
                      m_nTot := unat poolSize,
                      m_free := carve a (unat poolSize) blockSize\<rparr>))"

text \<open>
  Modelled from the spec: \<^verbatim>\<open>QMPool::get\<close>. The spec: "get(margin) -> event|fail
  allocates one block, failing (not blocking) if free blocks fall below margin reserved
  blocks for high-priority use, otherwise from the general free list"; "get must fail
  once free blocks would drop below margin, even though physical blocks remain". The
  failure is the null pointer.
\<close>

definition QMPool_get :: "nat \<Rightarrow> QMPool \<Rightarrow> ptr \<times> QMPool" where
  "QMPool_get margin p =
     (if int (nFree p) - 1 < int margin then (Null, p)
      else (case m_free p of
              [] \<Rightarrow> (Null, p)
            | b # bs \<Rightarrow> (Ptr b, p\<lparr>m_free := bs\<rparr>)))"

text \<open>
  Modelled from the spec: \<^verbatim>\<open>QMPool::put\<close>. The spec: "put(event) returns a block".
  Returning the null pointer is a fatal condition.
\<close>

definition QMPool_put :: "ptr \<Rightarrow> QMPool \<Rightarrow> fault + QMPool" where
  "QMPool_put e p =
     (case e of
        Null \<Rightarrow> Inl Q_fatal
      | Ptr b \<Rightarrow> Inr (p\<lparr>m_free := b # m_free p\<rparr>))"

text \<open>
  \<^verbatim>\<open>QF_EPOOL_EVENT_SIZE_(p_)\<close> is \<open>p_.getBlockSize()\<close>;
  \<^verbatim>\<open>QF_EPOOL_GET_(p_, e_, m_)\<close> assigns \<open>p_.get(m_)\<close>, cast to an event pointer, to
  \<open>e_\<close>; \<^verbatim>\<open>QF_EPOOL_PUT_(p_, e_)\<close> is \<open>p_.put(e_)\<close>. The functions return the new value
  of \<open>e_\<close> and the pool.
\<close>

definition QF_EPOOL_EVENT_SIZE :: "QMPool \<Rightarrow> nat" where
  "QF_EPOOL_EVENT_SIZE p = m_blockSize p"

definition QF_EPOOL_GET :: "QMPool \<Rightarrow> nat \<Rightarrow> ptr \<times> QMPool" where
  "QF_EPOOL_GET p margin = QMPool_get margin p"

definition QF_EPOOL_PUT :: "QMPool \<Rightarrow> ptr \<Rightarrow> fault + QMPool" where
  "QF_EPOOL_PUT p e = QMPool_put e p"

text \<open>
  The number of allocations with margin 0 that succeed in a row, of at most \<open>k\<close>
  attempts: the blocks available for allocation, counted by allocating them.
\<close>

fun drain :: "nat \<Rightarrow> QMPool \<Rightarrow> nat" where
  "drain 0 p = 0"
| "drain (Suc k) p =
     (case QF_EPOOL_GET p 0 of (Null, _) \<Rightarrow> 0 | (Ptr _, p') \<Rightarrow> Suc (drain k p'))"

text \<open>
  Clients of a pool: sequences of allocations (with a margin) and of releases of a block
  that is held (the \<open>k\<close>-th of the blocks held). Releasing a block that is not held is
  a fault, and a fault ends the run.
\<close>

datatype pool_op = Alloc nat | Release nat

fun pool_step :: "pool_op \<Rightarrow> QMPool \<times> addr list \<Rightarrow> fault + (QMPool \<times> addr list)" where
  "pool_step (Alloc margin) (p, held) =
     (case QF_EPOOL_GET p margin of
        (Null, p') \<Rightarrow> Inr (p', held)
      | (Ptr b, p') \<Rightarrow> Inr (p', b # held))"
| "pool_step (Release k) (p, held) =
     (if length held \<le> k then Inl Q_fatal
      else case QF_EPOOL_PUT p (Ptr (held ! k)) of
             Inl f \<Rightarrow> Inl f
           | Inr p' \<Rightarrow> Inr (p', take k held @ drop (Suc k) held))"

fun pool_run :: "pool_op list \<Rightarrow> QMPool \<times> addr list \<Rightarrow> fault + (QMPool \<times> addr list)" where
  "pool_run [] s = Inr s"
| "pool_run (x # xs) s = (case pool_step x s of Inl f \<Rightarrow> Inl f | Inr s' \<Rightarrow> pool_run xs s')"

subsection \<open>Critical section\<close>

text \<open>
  \<^verbatim>\<open>QF_enterCriticalSection_\<close> and \<^verbatim>\<open>QF_leaveCriticalSection_\<close> are declared in the
  header and defined elsewhere: they are parameters, functions on the state \<open>'w\<close> of the
  process. \<^verbatim>\<open>QF_INT_DISABLE()\<close> and \<^verbatim>\<open>QF_INT_ENABLE()\<close> expand to calls of them;
  \<^verbatim>\<open>QF_CRIT_ENTRY(dummy)\<close> and \<^verbatim>\<open>QF_CRIT_EXIT(dummy)\<close> expand to
  \<^verbatim>\<open>QF_INT_DISABLE()\<close> and \<^verbatim>\<open>QF_INT_ENABLE()\<close> and do not use their argument
  (\<^verbatim>\<open>QF_CRIT_STAT_TYPE\<close> is not defined).
\<close>

definition QF_INT_DISABLE :: "('w \<Rightarrow> 'w) \<Rightarrow> 'w \<Rightarrow> 'w" where
  "QF_INT_DISABLE QF_enterCriticalSection w = QF_enterCriticalSection w"

definition QF_INT_ENABLE :: "('w \<Rightarrow> 'w) \<Rightarrow> 'w \<Rightarrow> 'w" where
  "QF_INT_ENABLE QF_leaveCriticalSection w = QF_leaveCriticalSection w"

definition QF_CRIT_ENTRY :: "('w \<Rightarrow> 'w) \<Rightarrow> 'd \<Rightarrow> 'w \<Rightarrow> 'w" where
  "QF_CRIT_ENTRY QF_enterCriticalSection dummy w = QF_INT_DISABLE QF_enterCriticalSection w"

definition QF_CRIT_EXIT :: "('w \<Rightarrow> 'w) \<Rightarrow> 'd \<Rightarrow> 'w \<Rightarrow> 'w" where
  "QF_CRIT_EXIT QF_leaveCriticalSection dummy w = QF_INT_ENABLE QF_leaveCriticalSection w"

subsection \<open>Ready set, event queues and active objects\<close>

text \<open>
  Modelled from the spec: the class \<^verbatim>\<open>QPSet64\<close> (\<^verbatim>\<open>qpset.h\<close>), the type of
  \<^verbatim>\<open>QV_readySet_\<close>. The spec: "a fixed-width bitmask (<= 64 bits)"; "insert(priority)
  sets bit priority; remove(priority) clears it; findHighest() -> priority | empty";
  "no error conditions other than programming-error assertions for out-of-range
  priority"; priority 0 is "reserved/unused".
\<close>

type_synonym QPSet64 = "64 word"

definition QPSet64_insert :: "nat \<Rightarrow> QPSet64 \<Rightarrow> fault + QPSet64" where
  "QPSet64_insert n s = (if 0 < n \<and> n < 64 then Inr (set_bit n s) else Inl Q_fatal)"

definition QPSet64_remove :: "nat \<Rightarrow> QPSet64 \<Rightarrow> fault + QPSet64" where
  "QPSet64_remove n s = (if 0 < n \<and> n < 64 then Inr (unset_bit n s) else Inl Q_fatal)"

definition QPSet64_hasElement :: "nat \<Rightarrow> QPSet64 \<Rightarrow> bool" where
  "QPSet64_hasElement n s = bit s n"

fun highest_below :: "nat \<Rightarrow> QPSet64 \<Rightarrow> nat option" where
  "highest_below 0 s = None"
| "highest_below (Suc n) s = (if bit s n then Some n else highest_below n s)"

definition QPSet64_findMax :: "QPSet64 \<Rightarrow> nat option" where
  "QPSet64_findMax s = highest_below 64 s"

text \<open>
  Modelled from the spec: the class \<^verbatim>\<open>QEQueue\<close> (\<^verbatim>\<open>qequeue.h\<close>), of which the header
  reads the member \<^verbatim>\<open>m_frontEvt\<close>. The spec: a "bounded FIFO of event references";
  "tryEnqueue(event) -> bool (false signals overflow)"; "dequeueIfAny() -> event |
  empty"; "capacity is fixed at configuration time". The front event is null when the
  queue is empty; the events behind it wait in \<open>m_ring\<close>; \<open>m_end\<close> is the capacity.
\<close>

record QEQueue =
  m_frontEvt :: ptr
  m_ring :: "addr list"
  m_end :: nat

definition QEQueue_init :: "nat \<Rightarrow> QEQueue" where
  "QEQueue_init qLen = \<lparr>m_frontEvt = Null, m_ring = [], m_end = qLen\<rparr>"

definition QEQueue_tryEnqueue :: "addr \<Rightarrow> QEQueue \<Rightarrow> QEQueue option" where
  "QEQueue_tryEnqueue e q =
     (if m_frontEvt q = Null then
        (if 0 < m_end q then Some (q\<lparr>m_frontEvt := Ptr e\<rparr>) else None)
      else if Suc (length (m_ring q)) < m_end q then Some (q\<lparr>m_ring := m_ring q @ [e]\<rparr>)
      else None)"

definition QEQueue_dequeueIfAny :: "QEQueue \<Rightarrow> ptr \<times> QEQueue" where
  "QEQueue_dequeueIfAny q =
     (case m_frontEvt q of
        Null \<Rightarrow> (Null, q)
      | Ptr e \<Rightarrow>
          (case m_ring q of
             [] \<Rightarrow> (Ptr e, q\<lparr>m_frontEvt := Null\<rparr>)
           | x # xs \<Rightarrow> (Ptr e, q\<lparr>m_frontEvt := Ptr x, m_ring := xs\<rparr>)))"

text \<open>
  Of an active object the header reads the members \<^verbatim>\<open>m_prio\<close> and \<^verbatim>\<open>m_eQueue\<close>
  (of the type \<^verbatim>\<open>QF_EQUEUE_TYPE\<close>, which is \<^verbatim>\<open>QEQueue\<close>).
\<close>

record QActive =
  m_prio :: nat
  m_eQueue :: QEQueue

text \<open>
  The native event queue operations of the header.
  \<^verbatim>\<open>QACTIVE_EQUEUE_WAIT_(me_)\<close> is \<^verbatim>\<open>Q_ASSERT\<close> of the front event's not being null;
  \<^verbatim>\<open>QACTIVE_EQUEUE_SIGNAL_(me_)\<close> is \<open>QV_readySet_.insert(me_->m_prio)\<close>;
  \<^verbatim>\<open>QACTIVE_EQUEUE_ONEMPTY_(me_)\<close> is \<open>QV_readySet_.remove(me_->m_prio)\<close>.
  The ready set is passed and returned.
\<close>

definition QACTIVE_EQUEUE_WAIT :: "QActive \<Rightarrow> fault + unit" where
  "QACTIVE_EQUEUE_WAIT me = (if m_frontEvt (m_eQueue me) \<noteq> Null then Inr () else Inl Q_assert)"

definition QACTIVE_EQUEUE_SIGNAL :: "QActive \<Rightarrow> QPSet64 \<Rightarrow> fault + QPSet64" where
  "QACTIVE_EQUEUE_SIGNAL me QV_readySet = QPSet64_insert (m_prio me) QV_readySet"

definition QACTIVE_EQUEUE_ONEMPTY :: "QActive \<Rightarrow> QPSet64 \<Rightarrow> fault + QPSet64" where
  "QACTIVE_EQUEUE_ONEMPTY me QV_readySet = QPSet64_remove (m_prio me) QV_readySet"

subsection \<open>The kernel that uses the hooks\<close>

text \<open>
  The state of the kernel: the ready set and the registered active objects.
\<close>

record QV =
  QV_readySet :: QPSet64
  active :: "QActive list"

definition QV_init :: QV where
  "QV_init = \<lparr>QV_readySet = 0, active = []\<rparr>"

text \<open>
  Modelled from the spec: the start of an active object. The spec: an active object is
  "identified by a unique priority in [1, MAX_ACTIVE]"; the layer above supplies "a
  registration call (priority, queueCapacity)"; "priority out of range, duplicate
  priority, queue/pool capacity of zero" are "fatal at initialization"; the oversizing
  factor is a "multiplicative safety margin applied to queue/pool capacities", "applied
  only at the host-adaptation boundary (pool/queue initialization)". The capacity is a
  natural number: the width of the queue's counter is not modelled, and no property
  below depends on the capacity.
\<close>

definition QActive_start :: "nat \<Rightarrow> nat \<Rightarrow> QV \<Rightarrow> fault + QV" where
  "QActive_start prio qLen st =
     (if \<not> (0 < prio \<and> prio \<le> QF_MAX_ACTIVE) then Inl Q_fatal
      else if prio \<in> set (map m_prio (active st)) then Inl Q_fatal
      else if qLen = 0 then Inl Q_fatal
      else Inr (st\<lparr>active := active st @
                  [\<lparr>m_prio = prio,
                    m_eQueue = QEQueue_init (qLen * nat QF_WIN32_FUDGE_FACTOR)\<rparr>]\<rparr>))"

text \<open>
  Modelled from the spec: posting an event to the active object at index \<open>i\<close>. The
  spec: overflow of the queue "is a fatal condition (no silent drop)"; a "successful
  transition from empty to non-empty ... must also call Ready-Set insert", which is the
  hook \<^verbatim>\<open>QACTIVE_EQUEUE_SIGNAL_\<close>.
\<close>

definition QActive_post :: "nat \<Rightarrow> addr \<Rightarrow> QV \<Rightarrow> fault + QV" where
  "QActive_post i e st =
     (if length (active st) \<le> i then Inl Q_fatal
      else
        let me = active st ! i in
        case QEQueue_tryEnqueue e (m_eQueue me) of
          None \<Rightarrow> Inl Q_fatal
        | Some q \<Rightarrow>
            if m_frontEvt (m_eQueue me) = Null then
              (case QACTIVE_EQUEUE_SIGNAL me (QV_readySet st) of
                 Inl x \<Rightarrow> Inl x
               | Inr rs \<Rightarrow>
                   Inr (st\<lparr>QV_readySet := rs, active := (active st)[i := me\<lparr>m_eQueue := q\<rparr>]\<rparr>))
            else Inr (st\<lparr>active := (active st)[i := me\<lparr>m_eQueue := q\<rparr>]\<rparr>))"

text \<open>
  Modelled from the spec: taking the next event of the active object at index \<open>i\<close>. The
  spec: the scheduler dequeues "exactly one event from that active object's queue
  (updating Ready-Set if now empty)"; an empty queue there "is a fatal assertion", which
  is the hook \<^verbatim>\<open>QACTIVE_EQUEUE_WAIT_\<close>; the "transition non-empty to empty (after the
  final dequeue) must call Ready-Set remove", which is the hook
  \<^verbatim>\<open>QACTIVE_EQUEUE_ONEMPTY_\<close>.
\<close>

definition QActive_get :: "nat \<Rightarrow> QV \<Rightarrow> fault + (ptr \<times> QV)" where
  "QActive_get i st =
     (if length (active st) \<le> i then Inl Q_fatal
      else
        let me = active st ! i in
        case QACTIVE_EQUEUE_WAIT me of
          Inl x \<Rightarrow> Inl x
        | Inr _ \<Rightarrow>
            let (e, q) = QEQueue_dequeueIfAny (m_eQueue me) in
            if m_frontEvt q = Null then
              (case QACTIVE_EQUEUE_ONEMPTY me (QV_readySet st) of
                 Inl x \<Rightarrow> Inl x
               | Inr rs \<Rightarrow>
                   Inr (e, st\<lparr>QV_readySet := rs, active := (active st)[i := me\<lparr>m_eQueue := q\<rparr>]\<rparr>))
            else Inr (e, st\<lparr>active := (active st)[i := me\<lparr>m_eQueue := q\<rparr>]\<rparr>))"

text \<open>
  Modelled from the spec: the selection step of the scheduler. The spec: "call
  Ready-Set findHighest"; "if a ready priority exists, dequeue exactly one event from
  that active object's queue"; "if no priority is ready", the state is unchanged.
\<close>

fun index_of_prio :: "nat \<Rightarrow> QActive list \<Rightarrow> nat option" where
  "index_of_prio p [] = None"
| "index_of_prio p (a # as) =
     (if m_prio a = p then Some 0 else map_option Suc (index_of_prio p as))"

definition QV_select :: "QV \<Rightarrow> fault + (ptr \<times> QV)" where
  "QV_select st =
     (case QPSet64_findMax (QV_readySet st) of
        None \<Rightarrow> Inr (Null, st)
      | Some p \<Rightarrow>
          (case index_of_prio p (active st) of
             None \<Rightarrow> Inl Q_fatal
           | Some i \<Rightarrow> QActive_get i st))"

text \<open>Sequences of kernel operations; a fault ends the run.\<close>

datatype kernel_op = Start nat nat | Post nat addr | Get nat

fun kernel_step :: "kernel_op \<Rightarrow> QV \<Rightarrow> fault + QV" where
  "kernel_step (Start prio qLen) st = QActive_start prio qLen st"
| "kernel_step (Post i e) st = QActive_post i e st"
| "kernel_step (Get i) st = map_sum id snd (QActive_get i st)"

fun kernel_run :: "kernel_op list \<Rightarrow> QV \<Rightarrow> fault + QV" where
  "kernel_run [] st = Inr st"
| "kernel_run (x # xs) st =
     (case kernel_step x st of Inl f \<Rightarrow> Inl f | Inr st' \<Rightarrow> kernel_run xs st')"

text \<open>
  The priorities in the ready set, and the priorities of the active objects whose
  queue is not empty.
\<close>

definition ready_prios :: "QV \<Rightarrow> nat set" where
  "ready_prios st = {p. QPSet64_hasElement p (QV_readySet st)}"

definition nonempty_prios :: "QV \<Rightarrow> nat set" where
  "nonempty_prios st =
     set (map m_prio (filter (\<lambda>a. m_frontEvt (m_eQueue a) \<noteq> Null) (active st)))"

text \<open>
  The invariant of the kernel: the priorities of the registered active objects are
  distinct and lie in \<open>[1, QF_MAX_ACTIVE]\<close>, and the ready set holds the priorities of
  the active objects whose queue is not empty.
\<close>

definition kernel_inv :: "QV \<Rightarrow> bool" where
  "kernel_inv st \<longleftrightarrow>
     distinct (map m_prio (active st)) \<and>
     (\<forall>a \<in> set (active st). 0 < m_prio a \<and> m_prio a \<le> QF_MAX_ACTIVE) \<and>
     ready_prios st = nonempty_prios st"

section \<open>Properties\<close>

subsection \<open>Initialising an event pool\<close>

lemma fold_max_ge: "a \<le> fold max xs (a::nat)"
  by (induction xs arbitrary: a) (auto intro: order_trans [OF max.cobounded2])

lemma fold_max_mem: "x \<in> set xs \<Longrightarrow> x \<le> fold max xs (a::nat)"
proof (induction xs arbitrary: a)
  case Nil
  then show ?case by simp
next
  case (Cons y ys)
  show ?case
  proof (cases "x = y")
    case True
    have "y \<le> max y a" by simp
    also have "\<dots> \<le> fold max ys (max y a)" by (rule fold_max_ge)
    finally show ?thesis using True by simp
  next
    case False
    with Cons show ?thesis by simp
  qed
qed

lemma fresh_base_notin: "fresh_base m \<notin> bases m"
proof
  assume "fresh_base m \<in> bases m"
  then have "fresh_base m \<in> set (map fst (allocs m))" by (simp add: bases_def)
  from fold_max_mem [OF this, of 0] show False by (simp add: fresh_base_def)
qed

lemma fudge_word: "(word_of_int QF_WIN32_FUDGE_FACTOR :: 32 word) = 100"
  by (simp add: QF_WIN32_FUDGE_FACTOR_def)

lemma QF_EPOOL_INIT_unfold:
  "QF_EPOOL_INIT init p poolSto n e m =
     (if avail m < unat (n * 100) then Inl Std_bad_alloc
      else case init (Ptr (fresh_base m, 0)) (n * 100) e p of
             Inl x \<Rightarrow> Inl x
           | Inr p' \<Rightarrow>
               Inr (p', m\<lparr>allocs := (fresh_base m, unat (n * 100)) # allocs m,
                          avail := avail m - unat (n * 100)\<rparr>))"
  by (simp add: QF_EPOOL_INIT_def new_uint8_array_def fudge_word Let_def)

lemma nFree_QMPool_init:
  "QMPool_init sto n bs p = Inr p' \<Longrightarrow>
     nFree p' = unat n \<and> m_nTot p' = unat n \<and> m_blockSize p' = bs \<and> m_start p' = sto
     \<and> (\<exists>a. sto = Ptr a \<and> m_free p' = carve a (unat n) bs)"
  by (auto simp: QMPool_init_def nFree_def carve_def split: ptr.splits if_splits)

lemma drain_eq: "drain k p = min k (nFree p)"
proof (induction k arbitrary: p)
  case 0
  show ?case by simp
next
  case (Suc k)
  show ?case
  proof (cases "m_free p")
    case Nil
    then show ?thesis by (simp add: QF_EPOOL_GET_def QMPool_get_def nFree_def)
  next
    case (Cons b bs)
    then show ?thesis
      using Suc [of "p\<lparr>m_free := bs\<rparr>"]
      by (simp add: QF_EPOOL_GET_def QMPool_get_def nFree_def)
  qed
qed

lemma carve_base: "b \<in> set (carve a k bs) \<Longrightarrow> fst b = fst a"
  by (auto simp: carve_def)

text \<open>
  The macro calls \<^verbatim>\<open>init\<close> once, unless \<^verbatim>\<open>new[]\<close> throws: with the new array and
  with the product computed in \<^verbatim>\<open>uint_fast32_t\<close>, which is also the length of that
  array. The product is \<open>n * 100\<close> as long as that is below \<open>2 ^ 32\<close>, and a pool of the
  declared capacity 10 then has 1000 free blocks, all of which can be allocated.
\<close>

lemma epool_init_calls_init_once:
  "QF_EPOOL_INIT record_init calls poolSto n e m =
     (if avail m < unat (n * 100) then Inl Std_bad_alloc
      else Inr (calls @ [(Ptr (fresh_base m, 0), n * 100, e)],
                m\<lparr>allocs := (fresh_base m, unat (n * 100)) # allocs m,
                  avail := avail m - unat (n * 100)\<rparr>))"
  by (simp add: QF_EPOOL_INIT_unfold record_init_def)

lemma epool_init_capacity_10:
  assumes "1000 \<le> avail m"
  shows "\<exists>p' m'. QF_EPOOL_INIT QMPool_init p poolSto 10 bs m = Inr (p', m') \<and>
           nFree p' = 1000 \<and> drain k p' = min k 1000"
proof -
  obtain q where q: "QMPool_init (Ptr (fresh_base m, 0)) (10 * 100) bs p = Inr q"
    by (simp add: QMPool_init_def)
  from nFree_QMPool_init [OF q] have "nFree q = 1000"
    by simp
  with assms q show ?thesis
    by (simp add: QF_EPOOL_INIT_unfold drain_eq)
qed

text \<open>
  C1. The size passed to \<^verbatim>\<open>init\<close> is to be the declared capacity times the factor 100,
  and NOTE2 of the header says that the factor "is used to oversize the event queues
  and event pools". At the declared capacity 42949673 the macro does otherwise: the
  product 4294967300 does not fit the 32 bits of \<^verbatim>\<open>uint_fast32_t\<close>, nothing checks
  that, and \<^verbatim>\<open>new[]\<close> and \<^verbatim>\<open>init\<close> receive the size 4, which is smaller than the
  declared capacity itself.
\<close>

theorem epool_init_overflow_undersizes_pool:
  "QF_EPOOL_INIT record_init [] Null 42949673 (4::nat)
       \<lparr>allocs = [], bytes = (\<lambda>_ _. 0), avail = 1000\<rparr>
     = Inr ([(Ptr (1, 0), 4, 4)], \<lparr>allocs = [(1, 4)], bytes = (\<lambda>_ _. 0), avail = 996\<rparr>) \<and>
   unat (4 :: uint_fast32_t) \<noteq> unat (42949673 :: uint_fast32_t) * nat QF_WIN32_FUDGE_FACTOR \<and>
   unat (4 :: uint_fast32_t) < unat (42949673 :: uint_fast32_t)"
  by (simp add: QF_EPOOL_INIT_unfold record_init_def fresh_base_def QF_WIN32_FUDGE_FACTOR_def)

text \<open>
  C3. The effective capacity of a pool is to be the configured capacity times the
  factor. At the configured capacity \<open>2 ^ 30\<close> the same unchecked multiplication gives
  the effective capacity 0: the macro allocates an array of no bytes and hands
  \<^verbatim>\<open>init\<close> the size 0, also when the free store is empty.
\<close>

theorem oversizing_overflow_leaves_pool_empty:
  "QF_EPOOL_INIT record_init [] Null 1073741824 (4::nat)
       \<lparr>allocs = [], bytes = (\<lambda>_ _. 0), avail = 0\<rparr>
     = Inr ([(Ptr (1, 0), 0, 4)], \<lparr>allocs = [(1, 0)], bytes = (\<lambda>_ _. 0), avail = 0\<rparr>) \<and>
   unat (0 :: uint_fast32_t) \<noteq> unat (1073741824 :: uint_fast32_t) * nat QF_WIN32_FUDGE_FACTOR"
  by (simp add: QF_EPOOL_INIT_unfold record_init_def fresh_base_def QF_WIN32_FUDGE_FACTOR_def)

text \<open>
  C9. \<^verbatim>\<open>QF_EPOOL_INIT_\<close> does not use the storage the caller supplies: its result is
  the same for every pointer passed as \<open>poolSto_\<close>; it does not depend on the bytes in
  memory, which it returns as they were (so it neither reads nor writes the caller's
  buffer); the storage handed to \<^verbatim>\<open>init\<close> is a new array of the inflated size, whose
  base is none of the arrays that existed before, and the pool's storage and all its
  blocks lie in that new array.
\<close>

theorem epool_init_leaves_caller_buffer:
  "QF_EPOOL_INIT init p poolSto n e m = QF_EPOOL_INIT init p poolSto' n e m \<and>
   QF_EPOOL_INIT init p poolSto n e (m\<lparr>bytes := f\<rparr>)
     = map_sum id (\<lambda>(p', m'). (p', m'\<lparr>bytes := f\<rparr>)) (QF_EPOOL_INIT init p poolSto n e m) \<and>
   (QF_EPOOL_INIT init p poolSto n e m = Inr (p', m') \<longrightarrow>
      bytes m' = bytes m \<and>
      (\<exists>a. a \<notin> bases m \<and>
         allocs m' = (a, unat (n * word_of_int QF_WIN32_FUDGE_FACTOR)) # allocs m)) \<and>
   (QF_EPOOL_INIT QMPool_init q poolSto n bs m = Inr (q', m') \<longrightarrow>
      (\<exists>a. a \<notin> bases m \<and> m_start q' = Ptr (a, 0) \<and> (\<forall>b \<in> set (m_free q'). fst b = a)))"
proof (intro conjI impI)
  show "QF_EPOOL_INIT init p poolSto n e m = QF_EPOOL_INIT init p poolSto' n e m"
    by (simp add: QF_EPOOL_INIT_unfold)
  show "QF_EPOOL_INIT init p poolSto n e (m\<lparr>bytes := f\<rparr>)
     = map_sum id (\<lambda>(p', m'). (p', m'\<lparr>bytes := f\<rparr>)) (QF_EPOOL_INIT init p poolSto n e m)"
    by (simp add: QF_EPOOL_INIT_unfold fresh_base_def split: sum.splits)
next
  assume "QF_EPOOL_INIT init p poolSto n e m = Inr (p', m')"
  then have "m' = m\<lparr>allocs := (fresh_base m, unat (n * 100)) # allocs m,
                     avail := avail m - unat (n * 100)\<rparr>"
    by (auto simp: QF_EPOOL_INIT_unfold split: if_splits sum.splits)
  then show "bytes m' = bytes m"
    and "\<exists>a. a \<notin> bases m \<and>
         allocs m' = (a, unat (n * word_of_int QF_WIN32_FUDGE_FACTOR)) # allocs m"
    using fresh_base_notin [of m] by (auto simp: fudge_word)
next
  assume "QF_EPOOL_INIT QMPool_init q poolSto n bs m = Inr (q', m')"
  then have "QMPool_init (Ptr (fresh_base m, 0)) (n * 100) bs q = Inr q'"
    by (auto simp: QF_EPOOL_INIT_unfold split: if_splits sum.splits)
  from nFree_QMPool_init [OF this]
  have "m_start q' = Ptr (fresh_base m, 0)"
    and "m_free q' = carve (fresh_base m, 0) (unat (n * 100)) bs"
    by auto
  then show "\<exists>a. a \<notin> bases m \<and> m_start q' = Ptr (a, 0) \<and> (\<forall>b \<in> set (m_free q'). fst b = a)"
    using fresh_base_notin [of m] by (auto dest: carve_base)
qed

theorem epool_init_leaves_caller_buffer_witness:
  "QF_EPOOL_INIT QMPool_init \<lparr>m_start = Null, m_blockSize = 0, m_nTot = 0, m_free = []\<rparr>
        (Ptr (7, 0)) 1 50 \<lparr>allocs = [(7, 1)], bytes = (\<lambda>b i. if b = 7 then 170 else 0), avail = 5000\<rparr>
     = Inr (\<lparr>m_start = Ptr (8, 0), m_blockSize = 50, m_nTot = 100, m_free = carve (8, 0) 100 50\<rparr>,
            \<lparr>allocs = [(8, 100), (7, 1)], bytes = (\<lambda>b i. if b = 7 then 170 else 0),
              avail = 4900\<rparr>) \<and>
   8 \<notin> bases \<lparr>allocs = [(7, 1)], bytes = (\<lambda>b i. if b = 7 then 170 else 0), avail = 5000\<rparr>"
proof -
  let ?q = "\<lparr>m_start = Null, m_blockSize = 0, m_nTot = 0, m_free = []\<rparr>"
  let ?m = "\<lparr>allocs = [(7, 1)], bytes = (\<lambda>b i. if b = 7 then 170 else (0::8 word)), avail = 5000\<rparr>"
  let ?q' = "\<lparr>m_start = Ptr (8, 0), m_blockSize = 50, m_nTot = 100, m_free = carve (8, 0) 100 50\<rparr>"
  let ?m' = "\<lparr>allocs = [(8, 100), (7, 1)], bytes = (\<lambda>b i. if b = 7 then 170 else (0::8 word)),
              avail = 4900\<rparr>"
  have run: "QF_EPOOL_INIT QMPool_init ?q (Ptr (7, 0)) 1 50 ?m = Inr (?q', ?m')"
    by (simp add: QF_EPOOL_INIT_unfold QMPool_init_def fresh_base_def)
  note t = epool_init_leaves_caller_buffer [where init = QMPool_init and p = ?q
      and poolSto = "Ptr (7, 0)" and n = 1 and e = 50 and m = ?m and p' = ?q' and m' = ?m']
  from t run have "\<exists>a. a \<notin> bases ?m \<and> allocs ?m' = (a, unat (1 * word_of_int QF_WIN32_FUDGE_FACTOR :: uint_fast32_t)) # allocs ?m"
    by blast
  then have "8 \<notin> bases ?m"
    by auto
  with run show ?thesis
    by blast
qed

text \<open>
  C10. The assertion with the ID 210 in \<^verbatim>\<open>QF_EPOOL_INIT_\<close> never fails: whenever
  \<^verbatim>\<open>new[]\<close> returns, the pointer is not null, so for every pool size and every memory
  the macro does not end in that assertion (provided \<^verbatim>\<open>init\<close> itself does not raise
  it, as the two models of \<^verbatim>\<open>init\<close> do not); when the free store has too few bytes,
  the macro ends in \<^verbatim>\<open>std::bad_alloc\<close> instead.
\<close>

theorem epool_init_assertion_210_holds:
  "(new_uint8_array k m = Inr (sto, m') \<longrightarrow> sto \<noteq> Null) \<and>
   ((\<forall>sto' sz e' p'. init sto' sz e' p' \<noteq> Inl (Q_assert_id 210)) \<longrightarrow>
      QF_EPOOL_INIT init p poolSto n e m \<noteq> Inl (Q_assert_id 210)) \<and>
   QF_EPOOL_INIT record_init calls poolSto n e m \<noteq> Inl (Q_assert_id 210) \<and>
   QF_EPOOL_INIT QMPool_init q poolSto n bs m \<noteq> Inl (Q_assert_id 210) \<and>
   (avail m < unat (n * word_of_int QF_WIN32_FUDGE_FACTOR) \<longrightarrow>
      QF_EPOOL_INIT init p poolSto n e m = Inl Std_bad_alloc)"
proof (intro conjI impI)
  assume "new_uint8_array k m = Inr (sto, m')"
  then show "sto \<noteq> Null"
    by (auto simp: new_uint8_array_def split: if_splits)
next
  assume "\<forall>sto' sz e' p'. init sto' sz e' p' \<noteq> Inl (Q_assert_id 210)"
  then show "QF_EPOOL_INIT init p poolSto n e m \<noteq> Inl (Q_assert_id 210)"
    by (auto simp: QF_EPOOL_INIT_unfold split: sum.splits)
next
  show "QF_EPOOL_INIT record_init calls poolSto n e m \<noteq> Inl (Q_assert_id 210)"
    by (simp add: QF_EPOOL_INIT_unfold record_init_def)
  show "QF_EPOOL_INIT QMPool_init q poolSto n bs m \<noteq> Inl (Q_assert_id 210)"
    by (auto simp: QF_EPOOL_INIT_unfold QMPool_init_def split: sum.splits if_splits)
next
  assume "avail m < unat (n * word_of_int QF_WIN32_FUDGE_FACTOR)"
  then show "QF_EPOOL_INIT init p poolSto n e m = Inl Std_bad_alloc"
    by (simp add: QF_EPOOL_INIT_unfold fudge_word)
qed

theorem epool_init_assertion_210_holds_witness:
  "new_uint8_array 1000 \<lparr>allocs = [], bytes = (\<lambda>_ _. 0), avail = 5000\<rparr>
     = Inr (Ptr (1, 0), \<lparr>allocs = [(1, 1000)], bytes = (\<lambda>_ _. 0), avail = 4000\<rparr>) \<and>
   Ptr (1, 0) \<noteq> Null \<and>
   QF_EPOOL_INIT record_init [] Null 10 (4::nat) \<lparr>allocs = [], bytes = (\<lambda>_ _. 0), avail = 5000\<rparr>
     \<noteq> Inl (Q_assert_id 210) \<and>
   QF_EPOOL_INIT record_init [] Null 10 (4::nat) \<lparr>allocs = [], bytes = (\<lambda>_ _. 0), avail = 999\<rparr>
     = Inl Std_bad_alloc"
proof -
  let ?m = "\<lparr>allocs = [], bytes = (\<lambda>_ _. (0::8 word)), avail = 5000\<rparr>"
  let ?m' = "\<lparr>allocs = [(1, 1000)], bytes = (\<lambda>_ _. (0::8 word)), avail = 4000\<rparr>"
  let ?m2 = "\<lparr>allocs = [], bytes = (\<lambda>_ _. (0::8 word)), avail = 999\<rparr>"
  have new: "new_uint8_array 1000 ?m = Inr (Ptr (1, 0), ?m')"
    by (simp add: new_uint8_array_def fresh_base_def)
  have noassert: "\<forall>sto' sz (e'::nat) p'. record_init sto' sz e' p' \<noteq> Inl (Q_assert_id 210)"
    by (simp add: record_init_def)
  show ?thesis
    using new noassert
      epool_init_assertion_210_holds [of 1000 ?m "Ptr (1, 0)" ?m' record_init "[]" Null 10 "4::nat"]
      epool_init_assertion_210_holds [of 1000 ?m2 "Ptr (1, 0)" ?m' record_init "[]" Null 10 "4::nat"]
    by (simp add: fudge_word)
qed

subsection \<open>Allocating and releasing events\<close>

lemma QMPool_get_fail: "nFree p \<le> m \<Longrightarrow> QMPool_get m p = (Null, p)"
  by (simp add: QMPool_get_def)

lemma QMPool_get_ok:
  "m < nFree p \<Longrightarrow> \<exists>b bs. m_free p = b # bs \<and> QMPool_get m p = (Ptr b, p\<lparr>m_free := bs\<rparr>)"
  by (cases "m_free p") (auto simp: QMPool_get_def nFree_def)

text \<open>
  C7. An allocation with the margin \<open>m\<close> fails, returning the null pointer and leaving
  the pool as it was, exactly when granting it would leave fewer than \<open>m\<close> free blocks
  (that is, when the free-block count is at most \<open>m\<close>, also when free blocks remain);
  otherwise it succeeds: it returns the head of the free list, the free-block count
  drops by one and stays at least \<open>m\<close>.
\<close>

theorem epool_get_respects_margin:
  "(fst (QF_EPOOL_GET p m) = Null \<longleftrightarrow> int (nFree p) - 1 < int m) \<and>
   (nFree p \<le> m \<longrightarrow> QF_EPOOL_GET p m = (Null, p)) \<and>
   (m < nFree p \<longrightarrow>
      (\<exists>b bs. m_free p = b # bs \<and> QF_EPOOL_GET p m = (Ptr b, p\<lparr>m_free := bs\<rparr>)) \<and>
      Suc (nFree (snd (QF_EPOOL_GET p m))) = nFree p \<and>
      m \<le> nFree (snd (QF_EPOOL_GET p m)))"
proof (intro conjI impI)
  show "fst (QF_EPOOL_GET p m) = Null \<longleftrightarrow> int (nFree p) - 1 < int m"
    by (cases "m_free p") (auto simp: QF_EPOOL_GET_def QMPool_get_def nFree_def)
  show "QF_EPOOL_GET p m = (Null, p)" if "nFree p \<le> m"
    using QMPool_get_fail [OF that] by (simp add: QF_EPOOL_GET_def)
next
  assume lt: "m < nFree p"
  from QMPool_get_ok [OF lt] obtain b bs
    where g: "m_free p = b # bs" "QMPool_get m p = (Ptr b, p\<lparr>m_free := bs\<rparr>)" by blast
  then show "\<exists>b bs. m_free p = b # bs \<and> QF_EPOOL_GET p m = (Ptr b, p\<lparr>m_free := bs\<rparr>)"
    by (simp add: QF_EPOOL_GET_def)
  from g lt show "Suc (nFree (snd (QF_EPOOL_GET p m))) = nFree p"
    and "m \<le> nFree (snd (QF_EPOOL_GET p m))"
    by (simp_all add: QF_EPOOL_GET_def nFree_def)
qed

theorem epool_get_respects_margin_witness:
  "QF_EPOOL_GET \<lparr>m_start = Ptr (1, 0), m_blockSize = 4, m_nTot = 3,
                  m_free = [(1, 0), (1, 4), (1, 8)]\<rparr> 3
     = (Null, \<lparr>m_start = Ptr (1, 0), m_blockSize = 4, m_nTot = 3,
               m_free = [(1, 0), (1, 4), (1, 8)]\<rparr>) \<and>
   QF_EPOOL_GET \<lparr>m_start = Ptr (1, 0), m_blockSize = 4, m_nTot = 3,
                  m_free = [(1, 0), (1, 4), (1, 8)]\<rparr> 2
     = (Ptr (1, 0), \<lparr>m_start = Ptr (1, 0), m_blockSize = 4, m_nTot = 3,
                     m_free = [(1, 4), (1, 8)]\<rparr>)"
  using epool_get_respects_margin [of "\<lparr>m_start = Ptr (1, 0), m_blockSize = 4, m_nTot = 3,
                  m_free = [(1, 0), (1, 4), (1, 8)]\<rparr>" 3]
    epool_get_respects_margin [of "\<lparr>m_start = Ptr (1, 0), m_blockSize = 4, m_nTot = 3,
                  m_free = [(1, 0), (1, 4), (1, 8)]\<rparr>" 2]
  by (simp add: nFree_def)

lemma get_put_roundtrip:
  "QF_EPOOL_GET p m = (e, p') \<Longrightarrow> e \<noteq> Null \<Longrightarrow> QF_EPOOL_PUT p' e = Inr p"
  by (cases "m_free p")
     (auto simp: QF_EPOOL_GET_def QF_EPOOL_PUT_def QMPool_get_def QMPool_put_def
       split: if_splits)

lemma pool_step_count:
  "pool_step x (p, held) = Inr (p', held') \<Longrightarrow>
     nFree p' + length held' = nFree p + length held"
proof (cases x)
  case (Alloc m)
  assume "pool_step x (p, held) = Inr (p', held')"
  with Alloc show ?thesis
    by (cases "m_free p")
       (auto simp: QF_EPOOL_GET_def QMPool_get_def nFree_def split: if_splits)
next
  case (Release k)
  assume "pool_step x (p, held) = Inr (p', held')"
  with Release show ?thesis
    by (auto simp: QF_EPOOL_PUT_def QMPool_put_def nFree_def split: if_splits)
qed

lemma pool_run_count:
  "pool_run ops s = Inr s' \<Longrightarrow>
     nFree (fst s') + length (snd s') = nFree (fst s) + length (snd s)"
proof (induction ops arbitrary: s)
  case Nil
  then show ?case by simp
next
  case (Cons x xs)
  then obtain s1 where s1: "pool_step x s = Inr s1" "pool_run xs s1 = Inr s'"
    by (auto split: sum.splits)
  from pool_step_count [of x "fst s" "snd s" "fst s1" "snd s1"] s1(1)
  have "nFree (fst s1) + length (snd s1) = nFree (fst s) + length (snd s)" by simp
  with Cons.IH [OF s1(2)] show ?case by simp
qed

text \<open>
  C8. Releasing the block of a successful allocation gives back the pool as it was
  before the allocation, so its free-block count. Along every run of allocations and
  releases the free blocks and the blocks held add up to the same number; a run that
  starts and ends with no block held leaves the free-block count unchanged.
\<close>

theorem epool_put_after_get_restores_count:
  "(QF_EPOOL_GET p m = (e, p') \<and> e \<noteq> Null \<longrightarrow>
      QF_EPOOL_PUT p' e = Inr p \<and>
      (\<forall>p''. QF_EPOOL_PUT p' e = Inr p'' \<longrightarrow> nFree p'' = nFree p)) \<and>
   (pool_run ops (p, held) = Inr (q, held') \<longrightarrow>
      nFree q + length held' = nFree p + length held) \<and>
   (pool_run ops (p, []) = Inr (q, []) \<longrightarrow> nFree q = nFree p)"
proof (intro conjI impI)
  assume "QF_EPOOL_GET p m = (e, p') \<and> e \<noteq> Null"
  then have "QF_EPOOL_PUT p' e = Inr p"
    by (auto intro: get_put_roundtrip)
  then show "QF_EPOOL_PUT p' e = Inr p"
    and "\<forall>p''. QF_EPOOL_PUT p' e = Inr p'' \<longrightarrow> nFree p'' = nFree p"
    by simp_all
next
  show "nFree q + length held' = nFree p + length held"
    if "pool_run ops (p, held) = Inr (q, held')"
    using pool_run_count [OF that] by simp
  show "nFree q = nFree p" if "pool_run ops (p, []) = Inr (q, [])"
    using pool_run_count [OF that] by simp
qed

theorem epool_put_after_get_restores_count_witness:
  "QF_EPOOL_GET \<lparr>m_start = Ptr (1, 0), m_blockSize = 4, m_nTot = 3,
                  m_free = [(1, 0), (1, 4), (1, 8)]\<rparr> 2
     = (Ptr (1, 0), \<lparr>m_start = Ptr (1, 0), m_blockSize = 4, m_nTot = 3,
                     m_free = [(1, 4), (1, 8)]\<rparr>) \<and>
   QF_EPOOL_PUT \<lparr>m_start = Ptr (1, 0), m_blockSize = 4, m_nTot = 3, m_free = [(1, 4), (1, 8)]\<rparr>
       (Ptr (1, 0))
     = Inr \<lparr>m_start = Ptr (1, 0), m_blockSize = 4, m_nTot = 3,
            m_free = [(1, 0), (1, 4), (1, 8)]\<rparr> \<and>
   pool_run [Alloc 0, Alloc 1, Release 1, Alloc 0, Release 0, Release 0]
       (\<lparr>m_start = Ptr (1, 0), m_blockSize = 4, m_nTot = 3,
         m_free = [(1, 0), (1, 4), (1, 8)]\<rparr>, [])
     = Inr (\<lparr>m_start = Ptr (1, 0), m_blockSize = 4, m_nTot = 3,
             m_free = [(1, 4), (1, 0), (1, 8)]\<rparr>, []) \<and>
   nFree \<lparr>m_start = Ptr (1, 0), m_blockSize = 4, m_nTot = 3,
          m_free = [(1, 4), (1, 0), (1, 8)]\<rparr>
     = nFree \<lparr>m_start = Ptr (1, 0), m_blockSize = 4, m_nTot = 3,
              m_free = [(1, 0), (1, 4), (1, 8)]\<rparr>"
proof -
  let ?p = "\<lparr>m_start = Ptr (1, 0), m_blockSize = 4, m_nTot = 3,
             m_free = [(1, 0), (1, 4), (1, 8)]\<rparr>"
  let ?p' = "\<lparr>m_start = Ptr (1, 0), m_blockSize = 4, m_nTot = 3, m_free = [(1, 4), (1, 8)]\<rparr>"
  let ?q = "\<lparr>m_start = Ptr (1, 0), m_blockSize = 4, m_nTot = 3,
             m_free = [(1, 4), (1, 0), (1, 8)]\<rparr>"
  let ?ops = "[Alloc 0, Alloc 1, Release 1, Alloc 0, Release 0, Release 0]"
  have g: "QF_EPOOL_GET ?p 2 = (Ptr (1, 0), ?p')"
    by (simp add: QF_EPOOL_GET_def QMPool_get_def nFree_def)
  have ne: "Ptr (1, 0) \<noteq> Null"
    by simp
  have r: "pool_run ?ops (?p, []) = Inr (?q, [])"
    by code_simp
  note t = epool_put_after_get_restores_count [of ?p 2 "Ptr (1, 0)" ?p' ?ops "[]" ?q "[]"]
  have put: "QF_EPOOL_PUT ?p' (Ptr (1, 0)) = Inr ?p"
    using t g ne by blast
  have cnt: "nFree ?q = nFree ?p"
    using t r by blast
  from g put r cnt show ?thesis
    by blast
qed

subsection \<open>Critical section\<close>

text \<open>
  C6. Entering and leaving the critical section goes through one gateway that does not
  depend on a status argument: for every argument \<open>s\<close>, \<^verbatim>\<open>QF_CRIT_ENTRY(s)\<close> does
  what \<^verbatim>\<open>QF_INT_DISABLE()\<close> does, a call of \<^verbatim>\<open>QF_enterCriticalSection_\<close>, and
  \<^verbatim>\<open>QF_CRIT_EXIT(s)\<close> does what \<^verbatim>\<open>QF_INT_ENABLE()\<close> does, a call of
  \<^verbatim>\<open>QF_leaveCriticalSection_\<close>; two status arguments, of any types, give the same
  operation.
\<close>

theorem crit_entry_exit_single_gateway:
  "QF_CRIT_ENTRY enter (s::'a) w = QF_INT_DISABLE enter w \<and>
   QF_INT_DISABLE enter w = enter w \<and>
   QF_CRIT_EXIT leave s w = QF_INT_ENABLE leave w \<and>
   QF_INT_ENABLE leave w = leave w \<and>
   QF_CRIT_ENTRY enter s = QF_CRIT_ENTRY enter (s'::'b) \<and>
   QF_CRIT_EXIT leave s = QF_CRIT_EXIT leave s'"
  by (simp add: QF_CRIT_ENTRY_def QF_CRIT_EXIT_def QF_INT_DISABLE_def QF_INT_ENABLE_def
      fun_eq_iff)

subsection \<open>The queue-wait hook\<close>

lemma index_of_prio_less: "index_of_prio p as = Some i \<Longrightarrow> i < length as"
  by (induction as arbitrary: i) (auto split: if_splits)

text \<open>
  C4. \<^verbatim>\<open>QACTIVE_EQUEUE_WAIT_\<close> asserts that the front event of the queue is not null:
  it fails with the assertion exactly when the front event is null, and passes exactly
  when it is not. When the scheduler finds a highest ready priority whose active
  object has an empty queue (a stale bit of the ready set), taking the event, and so
  the selection step, ends in that assertion: the condition is neither ignored nor
  recovered from.
\<close>

theorem stale_ready_bit_is_fatal_assertion:
  "(QACTIVE_EQUEUE_WAIT me = Inl Q_assert \<longleftrightarrow> m_frontEvt (m_eQueue me) = Null) \<and>
   (QACTIVE_EQUEUE_WAIT me = Inr () \<longleftrightarrow> m_frontEvt (m_eQueue me) \<noteq> Null) \<and>
   (QPSet64_findMax (QV_readySet st) = Some p \<and> index_of_prio p (active st) = Some i \<and>
    m_frontEvt (m_eQueue (active st ! i)) = Null \<longrightarrow>
      QActive_get i st = Inl Q_assert \<and> QV_select st = Inl Q_assert)"
proof -
  have wait: "QACTIVE_EQUEUE_WAIT a = Inl Q_assert" if "m_frontEvt (m_eQueue a) = Null" for a
    using that by (simp add: QACTIVE_EQUEUE_WAIT_def)
  have get: "QActive_get i st = Inl Q_assert"
    if "index_of_prio p (active st) = Some i" "m_frontEvt (m_eQueue (active st ! i)) = Null"
    using that index_of_prio_less [OF that(1)] wait [OF that(2)]
    by (simp add: QActive_get_def Let_def)
  show ?thesis
    using get by (auto simp: QACTIVE_EQUEUE_WAIT_def QV_select_def)
qed

theorem stale_ready_bit_is_fatal_assertion_witness:
  "QV_select \<lparr>QV_readySet = 8, active = [\<lparr>m_prio = 3, m_eQueue = QEQueue_init 500\<rparr>]\<rparr>
     = Inl Q_assert"
proof -
  have "QPSet64_findMax 8 = Some 3" by code_simp
  then show ?thesis
    using stale_ready_bit_is_fatal_assertion [of "\<lparr>m_prio = 3, m_eQueue = QEQueue_init 500\<rparr>"
        "\<lparr>QV_readySet = 8, active = [\<lparr>m_prio = 3, m_eQueue = QEQueue_init 500\<rparr>]\<rparr>" 3 0]
    by (simp add: QEQueue_init_def)
qed

subsection \<open>The ready set and the queues\<close>

lemma hasElement_insert:
  "QPSet64_insert n s = Inr s' \<Longrightarrow>
     {p. QPSet64_hasElement p s'} = insert n {p. QPSet64_hasElement p s}"
  by (auto simp: QPSet64_insert_def QPSet64_hasElement_def bit_set_bit_iff split: if_splits)

lemma hasElement_remove:
  "QPSet64_remove n s = Inr s' \<Longrightarrow>
     {p. QPSet64_hasElement p s'} = {p. QPSet64_hasElement p s} - {n}"
  by (auto simp: QPSet64_remove_def QPSet64_hasElement_def bit_unset_bit_iff split: if_splits)

lemma map_prio_update:
  "i < length xs \<Longrightarrow> map m_prio (xs[i := (xs ! i)\<lparr>m_eQueue := q\<rparr>]) = map m_prio xs"
  by (simp add: map_update list_update_same_conv)

lemma nonempty_update:
  assumes d: "distinct (map m_prio xs)" and i: "i < length xs"
  shows "m_prio ` {a \<in> set (xs[i := (xs ! i)\<lparr>m_eQueue := q\<rparr>]). m_frontEvt (m_eQueue a) \<noteq> Null}
       = (if m_frontEvt q \<noteq> Null
          then insert (m_prio (xs ! i)) (m_prio ` {a \<in> set xs. m_frontEvt (m_eQueue a) \<noteq> Null})
          else m_prio ` {a \<in> set xs. m_frontEvt (m_eQueue a) \<noteq> Null} - {m_prio (xs ! i)})"
proof -
  let ?x = "xs ! i"
  let ?P = "\<lambda>a. m_frontEvt (m_eQueue a) \<noteq> Null"
  define y where "y = ?x\<lparr>m_eQueue := q\<rparr>"
  have Py: "?P y \<longleftrightarrow> m_frontEvt q \<noteq> Null" and py: "m_prio y = m_prio ?x"
    by (simp_all add: y_def)
  from d have dx: "distinct xs" and inj: "inj_on m_prio (set xs)"
    by (auto simp: distinct_map)
  have mem: "?x \<in> set xs"
    using i by simp
  have upd: "set (xs[i := y]) = insert y (set xs - {?x})"
    using dx i by (rule set_update_distinct)
  have other: "m_prio ` {a \<in> set xs - {?x}. ?P a} = m_prio ` {a \<in> set xs. ?P a} - {m_prio ?x}"
    using inj mem by (auto simp: inj_on_def)
  have "m_prio ` {a \<in> set (xs[i := y]). ?P a}
       = (if m_frontEvt q \<noteq> Null
          then insert (m_prio ?x) (m_prio ` {a \<in> set xs. ?P a})
          else m_prio ` {a \<in> set xs. ?P a} - {m_prio ?x})"
  proof (cases "m_frontEvt q \<noteq> Null")
    case True
    with Py have "{a \<in> set (xs[i := y]). ?P a} = insert y {a \<in> set xs - {?x}. ?P a}"
      unfolding upd by blast
    then have "m_prio ` {a \<in> set (xs[i := y]). ?P a}
                 = insert (m_prio ?x) (m_prio ` {a \<in> set xs - {?x}. ?P a})"
      using py by simp
    with other True show ?thesis
      by simp
  next
    case False
    with Py have "{a \<in> set (xs[i := y]). ?P a} = {a \<in> set xs - {?x}. ?P a}"
      unfolding upd by blast
    with other False show ?thesis
      by simp
  qed
  then show ?thesis
    unfolding y_def .
qed

lemma nonempty_prios_image:
  "nonempty_prios st = m_prio ` {a \<in> set (active st). m_frontEvt (m_eQueue a) \<noteq> Null}"
  by (simp add: nonempty_prios_def)

lemma tryEnqueue_front: "QEQueue_tryEnqueue e q = Some q' \<Longrightarrow> m_frontEvt q' \<noteq> Null"
  by (auto simp: QEQueue_tryEnqueue_def split: if_splits)

lemma kernel_inv_init: "kernel_inv QV_init"
  by (simp add: kernel_inv_def QV_init_def ready_prios_def nonempty_prios_def
      QPSet64_hasElement_def)

lemma kernel_inv_queue_update:
  assumes inv: "kernel_inv st" and i: "i < length (active st)"
    and act: "active st' = (active st)[i := (active st ! i)\<lparr>m_eQueue := q\<rparr>]"
    and rdy: "ready_prios st' =
       (if m_frontEvt q \<noteq> Null then insert (m_prio (active st ! i)) (ready_prios st)
        else ready_prios st - {m_prio (active st ! i)})"
  shows "kernel_inv st'"
proof -
  from inv have d: "distinct (map m_prio (active st))"
    and rng: "\<forall>a \<in> set (active st). 0 < m_prio a \<and> m_prio a \<le> QF_MAX_ACTIVE"
    and eq: "ready_prios st = nonempty_prios st"
    by (simp_all add: kernel_inv_def)
  have m: "map m_prio (active st') = map m_prio (active st)"
    using i act by (simp add: map_prio_update)
  have "m_prio ` set (active st') = m_prio ` set (active st)"
    using m by (metis set_map)
  with rng have rng': "\<forall>a \<in> set (active st'). 0 < m_prio a \<and> m_prio a \<le> QF_MAX_ACTIVE"
    by (metis (no_types, lifting) image_iff)
  have "nonempty_prios st' =
       (if m_frontEvt q \<noteq> Null then insert (m_prio (active st ! i)) (nonempty_prios st)
        else nonempty_prios st - {m_prio (active st ! i)})"
    unfolding nonempty_prios_image act by (rule nonempty_update [OF d i])
  with rdy eq have "ready_prios st' = nonempty_prios st'"
    by simp
  with d m rng' show ?thesis
    by (simp add: kernel_inv_def)
qed

lemma start_inv:
  assumes inv: "kernel_inv st" and s: "QActive_start prio c st = Inr st'"
  shows "kernel_inv st'"
proof -
  from s have ok: "0 < prio" "prio \<le> QF_MAX_ACTIVE" "prio \<notin> set (map m_prio (active st))"
    and st': "st' = st\<lparr>active := active st @
                  [\<lparr>m_prio = prio, m_eQueue = QEQueue_init (c * nat QF_WIN32_FUDGE_FACTOR)\<rparr>]\<rparr>"
    by (auto simp: QActive_start_def split: if_splits)
  from inv ok show ?thesis
    unfolding st' by (auto simp: kernel_inv_def ready_prios_def nonempty_prios_def QEQueue_init_def)
qed

lemma post_inv:
  assumes inv: "kernel_inv st" and s: "QActive_post i e st = Inr st'"
  shows "kernel_inv st'"
proof -
  let ?me = "active st ! i"
  from s have i: "i < length (active st)"
    by (auto simp: QActive_post_def split: if_splits)
  from s i obtain q where q: "QEQueue_tryEnqueue e (m_eQueue ?me) = Some q"
    by (auto simp: QActive_post_def Let_def split: option.splits)
  have fq: "m_frontEvt q \<noteq> Null"
    using q by (rule tryEnqueue_front)
  show ?thesis
  proof (cases "m_frontEvt (m_eQueue ?me) = Null")
    case True
    with s i q obtain rs where rs: "QACTIVE_EQUEUE_SIGNAL ?me (QV_readySet st) = Inr rs"
      and st': "st' = st\<lparr>QV_readySet := rs, active := (active st)[i := ?me\<lparr>m_eQueue := q\<rparr>]\<rparr>"
      by (auto simp: QActive_post_def Let_def split: sum.splits)
    from rs have "{p. QPSet64_hasElement p rs}
        = insert (m_prio ?me) {p. QPSet64_hasElement p (QV_readySet st)}"
      unfolding QACTIVE_EQUEUE_SIGNAL_def by (rule hasElement_insert)
    then have "ready_prios st' = insert (m_prio ?me) (ready_prios st)"
      by (simp add: st' ready_prios_def)
    with fq show ?thesis
      by (intro kernel_inv_queue_update [OF inv i, of st' q]) (simp_all add: st')
  next
    case False
    with s i q have st': "st' = st\<lparr>active := (active st)[i := ?me\<lparr>m_eQueue := q\<rparr>]\<rparr>"
      by (auto simp: QActive_post_def Let_def)
    from False i have "m_prio ?me \<in> nonempty_prios st"
      by (auto simp: nonempty_prios_image)
    with inv have "m_prio ?me \<in> ready_prios st"
      by (simp add: kernel_inv_def)
    then have "ready_prios st' = insert (m_prio ?me) (ready_prios st)"
      by (auto simp: st' ready_prios_def)
    with fq show ?thesis
      by (intro kernel_inv_queue_update [OF inv i, of st' q]) (simp_all add: st')
  qed
qed

lemma get_inv:
  assumes inv: "kernel_inv st" and s: "QActive_get i st = Inr (ev, st')"
  shows "kernel_inv st'"
proof -
  let ?me = "active st ! i"
  from s have i: "i < length (active st)"
    by (auto simp: QActive_get_def split: if_splits)
  from s i have front: "m_frontEvt (m_eQueue ?me) \<noteq> Null"
    by (auto simp: QActive_get_def Let_def QACTIVE_EQUEUE_WAIT_def split: if_splits)
  then have w: "QACTIVE_EQUEUE_WAIT ?me = Inr ()"
    by (simp add: QACTIVE_EQUEUE_WAIT_def)
  obtain e q where d: "QEQueue_dequeueIfAny (m_eQueue ?me) = (e, q)"
    by (cases "QEQueue_dequeueIfAny (m_eQueue ?me)")
  show ?thesis
  proof (cases "m_frontEvt q = Null")
    case True
    with s i w d obtain rs where rs: "QACTIVE_EQUEUE_ONEMPTY ?me (QV_readySet st) = Inr rs"
      and st': "st' = st\<lparr>QV_readySet := rs, active := (active st)[i := ?me\<lparr>m_eQueue := q\<rparr>]\<rparr>"
      by (auto simp: QActive_get_def Let_def split: sum.splits)
    from rs have "{p. QPSet64_hasElement p rs}
        = {p. QPSet64_hasElement p (QV_readySet st)} - {m_prio ?me}"
      unfolding QACTIVE_EQUEUE_ONEMPTY_def by (rule hasElement_remove)
    then have "ready_prios st' = ready_prios st - {m_prio ?me}"
      by (simp add: st' ready_prios_def)
    with True show ?thesis
      by (intro kernel_inv_queue_update [OF inv i, of st' q]) (simp_all add: st')
  next
    case False
    with s i w d have st': "st' = st\<lparr>active := (active st)[i := ?me\<lparr>m_eQueue := q\<rparr>]\<rparr>"
      by (auto simp: QActive_get_def Let_def)
    from front i have "m_prio ?me \<in> nonempty_prios st"
      by (auto simp: nonempty_prios_image)
    with inv have "m_prio ?me \<in> ready_prios st"
      by (simp add: kernel_inv_def)
    then have "ready_prios st' = insert (m_prio ?me) (ready_prios st)"
      by (auto simp: st' ready_prios_def)
    with False show ?thesis
      by (intro kernel_inv_queue_update [OF inv i, of st' q]) (simp_all add: st')
  qed
qed

lemma kernel_step_inv:
  assumes inv: "kernel_inv st" and s: "kernel_step x st = Inr st'"
  shows "kernel_inv st'"
proof (cases x)
  case (Start prio c)
  with s inv show ?thesis by (auto intro: start_inv)
next
  case (Post i e)
  with s inv show ?thesis by (auto intro: post_inv)
next
  case (Get i)
  with s obtain ev where "QActive_get i st = Inr (ev, st')"
    by (cases "QActive_get i st") auto
  with inv show ?thesis by (rule get_inv)
qed

lemma kernel_run_inv: "kernel_inv st \<Longrightarrow> kernel_run xs st = Inr st' \<Longrightarrow> kernel_inv st'"
proof (induction xs arbitrary: st)
  case Nil
  then show ?case by simp
next
  case (Cons x xs)
  then obtain st1 where "kernel_step x st = Inr st1" "kernel_run xs st1 = Inr st'"
    by (auto split: sum.splits)
  with Cons show ?case
    by (blast intro: kernel_step_inv)
qed

lemma kernel_step_readySet:
  assumes "kernel_step x st1 = Inr st2"
  shows "QV_readySet st2 = QV_readySet st1 \<or>
      (\<exists>i e. x = Post i e \<and> m_frontEvt (m_eQueue (active st1 ! i)) = Null \<and>
         QACTIVE_EQUEUE_SIGNAL (active st1 ! i) (QV_readySet st1) = Inr (QV_readySet st2)) \<or>
      (\<exists>i. x = Get i \<and> m_frontEvt (m_eQueue (active st1 ! i)) \<noteq> Null \<and>
         m_frontEvt (m_eQueue (active st2 ! i)) = Null \<and>
         QACTIVE_EQUEUE_ONEMPTY (active st1 ! i) (QV_readySet st1) = Inr (QV_readySet st2))"
proof (cases x)
  case (Start prio c)
  with assms show ?thesis
    by (auto simp: QActive_start_def split: if_splits)
next
  case (Post i e)
  with assms show ?thesis
    by (auto simp: QActive_post_def Let_def split: if_splits option.splits sum.splits)
next
  case (Get i)
  with assms obtain ev where g: "QActive_get i st1 = Inr (ev, st2)"
    by (cases "QActive_get i st1") auto
  then have i: "i < length (active st1)"
    by (auto simp: QActive_get_def split: if_splits)
  from g i have front: "m_frontEvt (m_eQueue (active st1 ! i)) \<noteq> Null"
    by (auto simp: QActive_get_def Let_def QACTIVE_EQUEUE_WAIT_def split: if_splits)
  then have w: "QACTIVE_EQUEUE_WAIT (active st1 ! i) = Inr ()"
    by (simp add: QACTIVE_EQUEUE_WAIT_def)
  obtain e q where d: "QEQueue_dequeueIfAny (m_eQueue (active st1 ! i)) = (e, q)"
    by (cases "QEQueue_dequeueIfAny (m_eQueue (active st1 ! i))")
  from g i w d front Get show ?thesis
    by (auto simp: QActive_get_def Let_def split: if_splits sum.splits)
qed

text \<open>
  C2. After every run of starts, posts and gets from the initial state of the kernel
  (and from every state that satisfies the invariant), the ready set holds exactly the
  priorities of the active objects whose queue is not empty. The hook
  \<^verbatim>\<open>QACTIVE_EQUEUE_SIGNAL_\<close> adds the priority of its active object to the ready set
  and changes nothing else; \<^verbatim>\<open>QACTIVE_EQUEUE_ONEMPTY_\<close> removes it and changes nothing
  else. A step of the kernel leaves the ready set as it was unless it is a post to an
  empty queue, where the ready set is the result of the first hook, or a get that
  empties the queue, where it is the result of the second.
\<close>

theorem ready_set_tracks_nonempty_queues:
  "(kernel_run ops QV_init = Inr st \<longrightarrow> ready_prios st = nonempty_prios st) \<and>
   (kernel_inv st0 \<and> kernel_run ops st0 = Inr st \<longrightarrow> ready_prios st = nonempty_prios st) \<and>
   (QACTIVE_EQUEUE_SIGNAL me rs = Inr rs' \<longrightarrow>
      {p. QPSet64_hasElement p rs'} = insert (m_prio me) {p. QPSet64_hasElement p rs}) \<and>
   (QACTIVE_EQUEUE_ONEMPTY me rs = Inr rs' \<longrightarrow>
      {p. QPSet64_hasElement p rs'} = {p. QPSet64_hasElement p rs} - {m_prio me}) \<and>
   (kernel_step x st1 = Inr st2 \<longrightarrow>
      QV_readySet st2 = QV_readySet st1 \<or>
      (\<exists>i e. x = Post i e \<and> m_frontEvt (m_eQueue (active st1 ! i)) = Null \<and>
         QACTIVE_EQUEUE_SIGNAL (active st1 ! i) (QV_readySet st1) = Inr (QV_readySet st2)) \<or>
      (\<exists>i. x = Get i \<and> m_frontEvt (m_eQueue (active st1 ! i)) \<noteq> Null \<and>
         m_frontEvt (m_eQueue (active st2 ! i)) = Null \<and>
         QACTIVE_EQUEUE_ONEMPTY (active st1 ! i) (QV_readySet st1) = Inr (QV_readySet st2)))"
proof (intro conjI impI)
  assume "kernel_run ops QV_init = Inr st"
  with kernel_inv_init have "kernel_inv st" by (rule kernel_run_inv)
  then show "ready_prios st = nonempty_prios st" by (simp add: kernel_inv_def)
next
  assume "kernel_inv st0 \<and> kernel_run ops st0 = Inr st"
  then have "kernel_inv st" by (blast intro: kernel_run_inv)
  then show "ready_prios st = nonempty_prios st" by (simp add: kernel_inv_def)
next
  assume "QACTIVE_EQUEUE_SIGNAL me rs = Inr rs'"
  then show "{p. QPSet64_hasElement p rs'} = insert (m_prio me) {p. QPSet64_hasElement p rs}"
    unfolding QACTIVE_EQUEUE_SIGNAL_def by (rule hasElement_insert)
next
  assume "QACTIVE_EQUEUE_ONEMPTY me rs = Inr rs'"
  then show "{p. QPSet64_hasElement p rs'} = {p. QPSet64_hasElement p rs} - {m_prio me}"
    unfolding QACTIVE_EQUEUE_ONEMPTY_def by (rule hasElement_remove)
next
  assume "kernel_step x st1 = Inr st2"
  then show "QV_readySet st2 = QV_readySet st1 \<or>
      (\<exists>i e. x = Post i e \<and> m_frontEvt (m_eQueue (active st1 ! i)) = Null \<and>
         QACTIVE_EQUEUE_SIGNAL (active st1 ! i) (QV_readySet st1) = Inr (QV_readySet st2)) \<or>
      (\<exists>i. x = Get i \<and> m_frontEvt (m_eQueue (active st1 ! i)) \<noteq> Null \<and>
         m_frontEvt (m_eQueue (active st2 ! i)) = Null \<and>
         QACTIVE_EQUEUE_ONEMPTY (active st1 ! i) (QV_readySet st1) = Inr (QV_readySet st2))"
    by (rule kernel_step_readySet)
qed

theorem ready_set_tracks_nonempty_queues_witness:
  "kernel_run [Start 5 2, Start 10 2, Post 0 (1, 0), Post 0 (1, 4), Post 1 (1, 8), Get 1, Get 0]
       QV_init
     = Inr \<lparr>QV_readySet = 32,
            active = [\<lparr>m_prio = 5,
                       m_eQueue = \<lparr>m_frontEvt = Ptr (1, 4), m_ring = [], m_end = 200\<rparr>\<rparr>,
                      \<lparr>m_prio = 10,
                       m_eQueue = \<lparr>m_frontEvt = Null, m_ring = [], m_end = 200\<rparr>\<rparr>]\<rparr> \<and>
   ready_prios \<lparr>QV_readySet = 32,
            active = [\<lparr>m_prio = 5,
                       m_eQueue = \<lparr>m_frontEvt = Ptr (1, 4), m_ring = [], m_end = 200\<rparr>\<rparr>,
                      \<lparr>m_prio = 10,
                       m_eQueue = \<lparr>m_frontEvt = Null, m_ring = [], m_end = 200\<rparr>\<rparr>]\<rparr> = {5}"
proof -
  let ?ops = "[Start 5 2, Start 10 2, Post 0 (1, 0), Post 0 (1, 4), Post 1 (1, 8), Get 1, Get 0]"
  let ?st = "\<lparr>QV_readySet = 32,
            active = [\<lparr>m_prio = 5,
                       m_eQueue = \<lparr>m_frontEvt = Ptr (1, 4), m_ring = [], m_end = 200\<rparr>\<rparr>,
                      \<lparr>m_prio = 10,
                       m_eQueue = \<lparr>m_frontEvt = Null, m_ring = [], m_end = 200\<rparr>\<rparr>]\<rparr>"
  have run: "kernel_run ?ops QV_init = Inr ?st"
    by code_simp
  have ne: "nonempty_prios ?st = {5}"
    by (simp add: nonempty_prios_def)
  from ready_set_tracks_nonempty_queues [of ?ops ?st] run
  have "ready_prios ?st = nonempty_prios ?st"
    by blast
  with run ne show ?thesis
    by simp
qed

lemma distinct_bounded_length:
  assumes "distinct xs" and "\<forall>x \<in> set xs. 0 < x \<and> x \<le> (n::nat)"
  shows "length xs \<le> n"
proof -
  have "set xs \<subseteq> {1..n}" using assms(2) by auto
  then have "card (set xs) \<le> card {1..n}" by (intro card_mono) simp_all
  with assms(1) show ?thesis by (simp add: distinct_card)
qed

text \<open>
  The bound is attained: 63 active objects, with the priorities 1 to 63, can be
  started, and a 64th start is fatal.
\<close>

lemma max_active_attained:
  "map_sum id (\<lambda>st. length (active st))
     (kernel_run (map (\<lambda>p. Start p 1) [1..<64]) QV_init) = Inr 63"
  by code_simp

lemma max_active_exceeded:
  "kernel_run (map (\<lambda>p. Start p 1) [1..<65]) QV_init = Inl Q_fatal"
  by code_simp

text \<open>
  C5. \<open>QF_MAX_ACTIVE\<close> is 63 and the ready set has 64 bits. In every state the kernel
  reaches there are at most 63 active objects, the priority of each lies in \<open>[1, 63]\<close>
  and is below the width of the ready set, and bit 0 of the ready set is not set. Every
  priority in \<open>[1, QF_MAX_ACTIVE]\<close> can be inserted into the ready set and is a member
  afterwards; an active object starts only with a priority in \<open>[1, 63]\<close>.
\<close>

theorem max_active_63_fits_ready_set:
  "QF_MAX_ACTIVE = 63 \<and> size (QV_readySet st0) = 64 \<and>
   (kernel_run ops QV_init = Inr st \<longrightarrow>
      length (active st) \<le> QF_MAX_ACTIVE \<and>
      (\<forall>a \<in> set (active st). 1 \<le> m_prio a \<and> m_prio a \<le> 63 \<and> m_prio a < size (QV_readySet st)) \<and>
      \<not> QPSet64_hasElement 0 (QV_readySet st)) \<and>
   (1 \<le> p \<and> p \<le> QF_MAX_ACTIVE \<longrightarrow>
      (\<exists>s'. QPSet64_insert p s = Inr s' \<and> QPSet64_hasElement p s')) \<and>
   (QActive_start p c st1 = Inr st2 \<longrightarrow> 1 \<le> p \<and> p \<le> 63)"
proof (intro conjI impI)
  show "QF_MAX_ACTIVE = 63" by (simp add: QF_MAX_ACTIVE_def)
  show "size (QV_readySet st0) = 64" by (simp add: word_size)
next
  assume "kernel_run ops QV_init = Inr st"
  with kernel_inv_init have inv: "kernel_inv st" by (rule kernel_run_inv)
  then have d: "distinct (map m_prio (active st))"
    and rng: "\<forall>a \<in> set (active st). 0 < m_prio a \<and> m_prio a \<le> QF_MAX_ACTIVE"
    and eq: "ready_prios st = nonempty_prios st"
    by (simp_all add: kernel_inv_def)
  from rng have "\<forall>x \<in> set (map m_prio (active st)). 0 < x \<and> x \<le> QF_MAX_ACTIVE" by auto
  from distinct_bounded_length [OF d this] show "length (active st) \<le> QF_MAX_ACTIVE" by simp
  from rng show "\<forall>a \<in> set (active st).
      1 \<le> m_prio a \<and> m_prio a \<le> 63 \<and> m_prio a < size (QV_readySet st)"
    by (auto simp: QF_MAX_ACTIVE_def word_size)
  show "\<not> QPSet64_hasElement 0 (QV_readySet st)"
  proof
    assume "QPSet64_hasElement 0 (QV_readySet st)"
    then have "0 \<in> ready_prios st" by (simp add: ready_prios_def)
    with eq have "0 \<in> nonempty_prios st" by simp
    with rng show False by (auto simp: nonempty_prios_def)
  qed
next
  assume "1 \<le> p \<and> p \<le> QF_MAX_ACTIVE"
  then show "\<exists>s'. QPSet64_insert p s = Inr s' \<and> QPSet64_hasElement p s'"
    by (simp add: QPSet64_insert_def QPSet64_hasElement_def QF_MAX_ACTIVE_def bit_set_bit_iff)
next
  assume "QActive_start p c st1 = Inr st2"
  then show "1 \<le> p" and "p \<le> 63"
    by (auto simp: QActive_start_def QF_MAX_ACTIVE_def split: if_splits)
qed

theorem max_active_63_fits_ready_set_witness:
  "kernel_run [Start 63 1, Start 1 1, Post 0 (1, 0)] QV_init
     = Inr \<lparr>QV_readySet = 9223372036854775808,
            active = [\<lparr>m_prio = 63,
                       m_eQueue = \<lparr>m_frontEvt = Ptr (1, 0), m_ring = [], m_end = 100\<rparr>\<rparr>,
                      \<lparr>m_prio = 1,
                       m_eQueue = \<lparr>m_frontEvt = Null, m_ring = [], m_end = 100\<rparr>\<rparr>]\<rparr> \<and>
   QPSet64_insert 63 0 = Inr 9223372036854775808 \<and>
   QPSet64_hasElement 63 9223372036854775808 \<and>
   QActive_start 64 1 QV_init = Inl Q_fatal \<and>
   QActive_start 0 1 QV_init = Inl Q_fatal"
proof -
  let ?ops = "[Start 63 1, Start 1 1, Post 0 (1, 0)]"
  let ?st = "\<lparr>QV_readySet = 9223372036854775808,
            active = [\<lparr>m_prio = 63,
                       m_eQueue = \<lparr>m_frontEvt = Ptr (1, 0), m_ring = [], m_end = 100\<rparr>\<rparr>,
                      \<lparr>m_prio = 1,
                       m_eQueue = \<lparr>m_frontEvt = Null, m_ring = [], m_end = 100\<rparr>\<rparr>]\<rparr>"
  have run: "kernel_run ?ops QV_init = Inr ?st"
    by code_simp
  have ins: "QPSet64_insert 63 0 = Inr 9223372036854775808"
    by code_simp
  have s0: "QActive_start 0 1 QV_init = Inl Q_fatal"
    by (simp add: QActive_start_def)
  note t = max_active_63_fits_ready_set [where ops = ?ops and st = ?st and p = 63 and s = 0 and ?st0.0 = QV_init]
  note t64 = max_active_63_fits_ready_set [where p = 64 and c = 1 and ?st1.0 = QV_init and ?st0.0 = QV_init]
  from t run have "\<forall>a \<in> set (active ?st). 1 \<le> m_prio a \<and> m_prio a \<le> 63 \<and>
      m_prio a < size (QV_readySet ?st)"
    by blast
  from t64 have st: "QActive_start 64 1 QV_init = Inr st2 \<longrightarrow> 64 \<le> (63::nat)" for st2
    by blast
  have s64: "QActive_start 64 1 QV_init = Inl Q_fatal"
    using st by (cases "QActive_start 64 1 QV_init") (auto simp: QActive_start_def QF_MAX_ACTIVE_def)
  from t have "(1::nat) \<le> 63 \<and> 63 \<le> QF_MAX_ACTIVE \<longrightarrow>
      (\<exists>s'. QPSet64_insert 63 0 = Inr s' \<and> QPSet64_hasElement 63 s')"
    by blast
  with ins have has: "QPSet64_hasElement 63 9223372036854775808"
    by (simp add: QF_MAX_ACTIVE_def)
  from run ins has s64 s0 show ?thesis
    by blast
qed

end
